theory Spec2Isabelle
  imports Main "HOL-Library.AList" "HOL-Library.Char_ord" "HOL-Library.List_Lexorder"
begin

section \<open>Text: Python strings as sequences of code points\<close>

text \<open>
  A Python \<open>str\<close> is a sequence of Unicode code points. The patterns of
  \<open>rss_parser.py\<close> name code points beyond ASCII (\<open>U+00E9\<close> in
  \<open>Cat\<close>\<open>gories\<close>, \<open>U+00C0\<close> to \<open>U+00CB\<close> in the capital class), so a
  text is a list of code points, and \<open>ascii\<close> embeds an ASCII literal.
\<close>

type_synonym ustring = "nat list"

definition ascii :: "string \<Rightarrow> ustring" where
  "ascii s = map of_char s"

text \<open>
  The characters that \<open>\s\<close> matches in a \<open>str\<close> pattern and that \<open>str.strip()\<close>
  removes: the code points for which CPython's \<open>Py_UNICODE_ISSPACE\<close> holds.
\<close>

definition isspace :: "nat \<Rightarrow> bool" where
  "isspace c \<longleftrightarrow>
     (9 \<le> c \<and> c \<le> 13) \<or> (28 \<le> c \<and> c \<le> 32) \<or> c = 133 \<or> c = 160 \<or> c = 5760 \<or>
     (8192 \<le> c \<and> c \<le> 8202) \<or> c = 8232 \<or> c = 8233 \<or> c = 8239 \<or> c = 8287 \<or> c = 12288"

text \<open>\<open>str.strip()\<close> with no argument.\<close>

definition strip :: "ustring \<Rightarrow> ustring" where
  "strip s = rev (dropWhile isspace (rev (dropWhile isspace s)))"

text \<open>\<open>str.split(sep)\<close> for a one-character separator: never an empty list.\<close>

fun split :: "nat \<Rightarrow> ustring \<Rightarrow> ustring list" where
  "split sep [] = [[]]"
| "split sep (x # xs) =
     (if x = sep then [] # split sep xs
      else (case split sep xs of [] \<Rightarrow> [[x]] | w # ws \<Rightarrow> (x # w) # ws))"

section \<open>The regular expressions of \<open>rss_parser.py\<close>\<close>

text \<open>
  The fragment of Python's \<open>re\<close> syntax that the three patterns of the parser use, with
  the backtracking matcher's priorities: a greedy repetition tries the longest run first,
  a lazy one the shortest, an alternation its left branch first. Repetition is only ever
  applied to a single character class in the source, and so it is here.
\<close>

datatype cclass =
    Space                      \<comment> \<open>\<open>\s\<close>\<close>
  | Dot                        \<comment> \<open>\<open>.\<close> without DOTALL: anything but a newline\<close>
  | InSet "(nat \<times> nat) list"   \<comment> \<open>\<open>[...]\<close>, a list of inclusive ranges\<close>
  | NotIn "(nat \<times> nat) list"   \<comment> \<open>\<open>[^...]\<close>\<close>

fun in_ranges :: "(nat \<times> nat) list \<Rightarrow> nat \<Rightarrow> bool" where
  "in_ranges [] c = False"
| "in_ranges ((lo, hi) # rs) c = ((lo \<le> c \<and> c \<le> hi) \<or> in_ranges rs c)"

fun cmatch :: "cclass \<Rightarrow> nat \<Rightarrow> bool" where
  "cmatch Space c = isspace c"
| "cmatch Dot c = (c \<noteq> 10)"
| "cmatch (InSet rs) c = in_ranges rs c"
| "cmatch (NotIn rs) c = (\<not> in_ranges rs c)"

datatype regex =
    Eps                        \<comment> \<open>the empty pattern\<close>
  | Str ustring                \<comment> \<open>literal text\<close>
  | Atom cclass                \<comment> \<open>one character of a class\<close>
  | Star cclass                \<comment> \<open>\<open>c*\<close>\<close>
  | StarLazy cclass            \<comment> \<open>\<open>c*?\<close>\<close>
  | Plus cclass                \<comment> \<open>\<open>c+\<close>\<close>
  | PlusLazy cclass            \<comment> \<open>\<open>c+?\<close>\<close>
  | Opt regex                  \<comment> \<open>\<open>r?\<close>\<close>
  | Seq regex regex
  | Alt regex regex            \<comment> \<open>\<open>r|s\<close>\<close>
  | Group nat regex            \<comment> \<open>a capturing group and its number\<close>
  | Eos                        \<comment> \<open>\<open>$\<close>: the end, or just before a final newline\<close>
  | Eol                        \<comment> \<open>\<open>$\<close> under MULTILINE: the end, or before any newline\<close>

text \<open>
  A matcher state is the text still to be read and the groups captured so far. The
  matcher returns every state the pattern can end in, in the order in which the
  backtracking search reaches them: the head is the match that \<open>re\<close> reports.
\<close>

type_synonym mstate = "ustring \<times> (nat \<times> ustring) list"

fun greedy :: "cclass \<Rightarrow> ustring \<Rightarrow> ustring list" where
  "greedy c [] = [[]]"
| "greedy c (x # xs) = (if cmatch c x then greedy c xs else []) @ [x # xs]"

fun lazy :: "cclass \<Rightarrow> ustring \<Rightarrow> ustring list" where
  "lazy c [] = [[]]"
| "lazy c (x # xs) = (x # xs) # (if cmatch c x then lazy c xs else [])"

fun rmatch :: "regex \<Rightarrow> mstate \<Rightarrow> mstate list" where
  "rmatch Eps st = [st]"
| "rmatch (Str w) (s, g) =
     (if take (length w) s = w then [(drop (length w) s, g)] else [])"
| "rmatch (Atom c) (s, g) =
     (case s of [] \<Rightarrow> [] | x # xs \<Rightarrow> if cmatch c x then [(xs, g)] else [])"
| "rmatch (Star c) (s, g) = map (\<lambda>t. (t, g)) (greedy c s)"
| "rmatch (StarLazy c) (s, g) = map (\<lambda>t. (t, g)) (lazy c s)"
| "rmatch (Plus c) (s, g) =
     (case s of [] \<Rightarrow> []
      | x # xs \<Rightarrow> if cmatch c x then map (\<lambda>t. (t, g)) (greedy c xs) else [])"
| "rmatch (PlusLazy c) (s, g) =
     (case s of [] \<Rightarrow> []
      | x # xs \<Rightarrow> if cmatch c x then map (\<lambda>t. (t, g)) (lazy c xs) else [])"
| "rmatch (Opt r) st = rmatch r st @ [st]"
| "rmatch (Seq r1 r2) st = concat (map (rmatch r2) (rmatch r1 st))"
| "rmatch (Alt r1 r2) st = rmatch r1 st @ rmatch r2 st"
| "rmatch (Group n r) (s, g) =
     map (\<lambda>(t, g'). (t, (n, take (length s - length t) s) # g')) (rmatch r (s, g))"
| "rmatch Eos (s, g) = (if s = [] \<or> s = [10] then [(s, g)] else [])"
| "rmatch Eol (s, g) =
     (case s of [] \<Rightarrow> [(s, g)] | x # xs \<Rightarrow> if x = 10 then [(s, g)] else [])"

fun seqs :: "regex list \<Rightarrow> regex" where
  "seqs [] = Eps"
| "seqs [r] = r"
| "seqs (r # rs) = Seq r (seqs rs)"

text \<open>
  \<open>re.search\<close>: the first start position, from the left, at which the pattern matches.
  The result is the text from the start of the match and the state the match ends in.
\<close>

fun re_search :: "regex \<Rightarrow> ustring \<Rightarrow> (ustring \<times> mstate) option" where
  "re_search r [] = (case rmatch r ([], []) of [] \<Rightarrow> None | m # ms \<Rightarrow> Some ([], m))"
| "re_search r (x # xs) =
     (case rmatch r (x # xs, []) of [] \<Rightarrow> re_search r xs | m # ms \<Rightarrow> Some (x # xs, m))"

text \<open>\<open>match.group(n)\<close>: the text of group \<open>n\<close>, \<open>None\<close> when it took no part.\<close>

definition group :: "mstate \<Rightarrow> nat \<Rightarrow> ustring option" where
  "group m n = map_of (snd m) n"

text \<open>
  \<open>re.sub\<close> with a constant replacement: the non-overlapping matches from the left are
  replaced. After an empty match the pattern is tried again at the same place for a match
  that is not empty; if there is none, the next character is copied.
\<close>

function re_sub :: "regex \<Rightarrow> ustring \<Rightarrow> ustring \<Rightarrow> ustring" where
  "re_sub r repl s =
     (case rmatch r (s, []) of
        [] \<Rightarrow> (case s of [] \<Rightarrow> [] | x # xs \<Rightarrow> x # re_sub r repl xs)
      | m # ms \<Rightarrow>
          if length (fst m) < length s then repl @ re_sub r repl (fst m)
          else repl @
            (case find (\<lambda>m'. length (fst m') < length s) ms of
               Some m' \<Rightarrow> repl @ re_sub r repl (fst m')
             | None \<Rightarrow> (case s of [] \<Rightarrow> [] | x # xs \<Rightarrow> x # re_sub r repl xs)))"
  by pat_completeness auto
termination
  by (relation "measure (\<lambda>(r, repl, s). length s)") (auto simp: find_Some_iff)

declare re_sub.simps [simp del]

subsection \<open>The patterns\<close>

text \<open>
  \<^verbatim>\<open>Budget\s*:\s*([^-]+)\s*-\s*Cat\<close>\<open>U+00E9\<close>\<^verbatim>\<open>gories\s*:\s*(.+?)(?:\s*[A-Z\<close>\<open>U+00C0..U+00CB\<close>\<^verbatim>\<open>]|\s*$)\<close>
\<close>

definition categories_word :: ustring where
  "categories_word = ascii ''Cat'' @ [233] @ ascii ''gories''"

definition budget_pattern :: regex where
  "budget_pattern = seqs
     [Str (ascii ''Budget''), Star Space, Str (ascii '':''), Star Space,
      Group 1 (Plus (NotIn [(45, 45)])),
      Star Space, Str (ascii ''-''), Star Space,
      Str categories_word, Star Space, Str (ascii '':''), Star Space,
      Group 2 (PlusLazy Dot),
      Alt (Seq (Star Space)
             (Atom (InSet [(65, 90), (192, 192), (193, 193), (194, 194), (195, 195),
                (196, 196), (197, 197), (198, 198), (199, 199), (200, 200), (201, 201),
                (202, 202), (203, 203)])))
          (Seq (Star Space) Eos)]"

text \<open>\<^verbatim>\<open>Budget\s*:.*?Cat\<close>\<open>U+00E9\<close>\<^verbatim>\<open>gories\s*:.*?\n?\<close>\<close>

definition strip_pattern :: regex where
  "strip_pattern = seqs
     [Str (ascii ''Budget''), Star Space, Str (ascii '':''), StarLazy Dot,
      Str categories_word, Star Space, Str (ascii '':''), StarLazy Dot,
      Opt (Str [10])]"

text \<open>\<^verbatim>\<open>Voir ce projet sur Codeur.*$\<close> under \<open>re.MULTILINE\<close>\<close>

definition link_pattern :: regex where
  "link_pattern = seqs [Str (ascii ''Voir ce projet sur Codeur''), Star Dot, Eol]"

text \<open>\<^verbatim>\<open>\s+\<close>\<close>

definition spaces_pattern :: regex where
  "spaces_pattern = Plus Space"

subsection \<open>\<open>RSSParser._extract_budget_and_categories\<close>\<close>

definition fallback_budget :: ustring where
  "fallback_budget = ascii ''Non sp'' @ [233] @ ascii ''cifi'' @ [233]"

text \<open>
  The body of the \<open>try\<close>: \<open>budget\<close> and \<open>categories\<close> keep their initial values unless
  the pattern matches. A group that took no part would make \<open>.strip()\<close> raise, which the
  \<open>except\<close> turns into the values assigned so far.
\<close>

definition extract_budget_and_categories :: "ustring \<Rightarrow> ustring \<times> ustring list" where
  "extract_budget_and_categories description =
     (case re_search budget_pattern description of
        None \<Rightarrow> (fallback_budget, [])
      | Some (start, m) \<Rightarrow>
          (case group m 1 of
             None \<Rightarrow> (fallback_budget, [])
           | Some g1 \<Rightarrow>
               (case group m 2 of
                  None \<Rightarrow> (strip g1, [])
                | Some g2 \<Rightarrow> (strip g1, map strip (split 44 (strip g2))))))"

subsection \<open>\<open>RSSParser._extract_main_content\<close>\<close>

definition extract_main_content :: "ustring \<Rightarrow> ustring" where
  "extract_main_content description =
     (let content = re_sub strip_pattern [] description;
          content = re_sub link_pattern [] content;
          content = strip (re_sub spaces_pattern [32] content)
      in content)"

section \<open>\<open>state_manager.py\<close>\<close>

subsection \<open>Data\<close>

text \<open>
  What \<open>datetime.fromisoformat\<close> returns: a naive \<open>datetime\<close>, here its microseconds on
  the local calendar counted from \<open>1970-01-01T00:00:00\<close>, or an aware one, when the text
  carries a UTC offset. \<open>datetime.now()\<close> is naive. The order \<open><\<close> between a naive and an
  aware \<open>datetime\<close> raises \<open>TypeError\<close>.
\<close>

datatype datetime = Naive int | Aware int

datatype py_error = TypeError | KeyError | OverflowError | OSError

text \<open>
  A mission dictionary as the state manager reads it: the key \<open>id\<close>, and the keys
  \<open>title\<close>, \<open>pub_date\<close> and \<open>feed_name\<close>, each of which may be absent (\<open>None\<close>); the
  other keys live in the record's extension. \<open>RSSParser._extract_mission_data\<close> builds
  dictionaries with all of them.
\<close>

record mission =
  mission_id :: ustring
  mission_title :: "ustring option"
  mission_pub_date :: "ustring option"
  mission_feed_name :: "ustring option"

text \<open>
  A value of \<open>missions_data\<close>. The code reads every key with \<open>.get\<close>, since a dictionary
  loaded from the file may lack any of them.
\<close>

record seen_record =
  title :: "ustring option"
  pub_date :: "ustring option"
  feed_name :: "ustring option"
  seen_at :: "ustring option"

text \<open>
  \<open>missions_data\<close> is a Python \<open>dict\<close>: its keys are distinct and it iterates in insertion
  order, so it is an association list; \<open>AList.update\<close> is \<open>d[k] = v\<close> (in place for a key
  already there, at the end for a new one) and \<open>AList.delete\<close> is \<open>d.pop(k, None)\<close>.
\<close>

record state_manager =
  seen_missions :: "ustring set"
  missions_data :: "(ustring \<times> seen_record) list"

definition empty_state :: state_manager where
  "empty_state = \<lparr>seen_missions = {}, missions_data = []\<rparr>"

text \<open>
  The state file and its temporary sibling. \<open>Garbage\<close> is any text from which the \<open>try\<close>
  block of \<open>load_state\<close> cannot build a store (not JSON, not an object, a truncated
  write). A \<open>Snapshot\<close> holds the three keys of the object that \<open>save_state\<close> writes, the
  first two possibly missing; the sequence under \<open>seen_missions\<close> is read only through
  \<open>set(...)\<close>, so the model keeps its set of elements.
\<close>

datatype file_content =
    Garbage
  | Snapshot "ustring set option" "(ustring \<times> seen_record) list option" ustring

record disk =
  data_file :: "file_content option"
  temp_file :: "file_content option"

subsection \<open>\<open>load_state\<close>\<close>

definition load_state :: "disk \<Rightarrow> state_manager" where
  "load_state d =
     (case data_file d of
        None \<Rightarrow> empty_state
      | Some Garbage \<Rightarrow> empty_state
      | Some (Snapshot seen data upd) \<Rightarrow>
          \<lparr>seen_missions = (case seen of None \<Rightarrow> {} | Some s \<Rightarrow> s),
           missions_data = (case data of None \<Rightarrow> [] | Some m \<Rightarrow> m)\<rparr>)"

subsection \<open>\<open>is_mission_seen\<close>, \<open>mark_mission_seen\<close>, \<open>mark_missions_seen\<close>\<close>

definition is_mission_seen :: "state_manager \<Rightarrow> ustring \<Rightarrow> bool" where
  "is_mission_seen st mid \<longleftrightarrow> mid \<in> seen_missions st"

text \<open>
  \<open>stamp\<close> is what \<open>datetime.now().isoformat()\<close> returns at the call. The identifier is
  added to the set first; the dictionary literal is evaluated next, and a \<open>KeyError\<close> from
  one of \<open>mission['title']\<close>, \<open>mission['pub_date']\<close>, \<open>mission['feed_name']\<close> leaves the
  method before \<open>missions_data\<close> is assigned. The result is the store after the call and
  the exception that left it, if one did.
\<close>

definition mark_mission_seen ::
  "ustring \<Rightarrow> state_manager \<Rightarrow> 'a mission_scheme \<Rightarrow> state_manager \<times> py_error option" where
  "mark_mission_seen stamp st m =
     (let st1 = st\<lparr>seen_missions := insert (mission_id m) (seen_missions st)\<rparr> in
      case mission_title m of
        None \<Rightarrow> (st1, Some KeyError)
      | Some t \<Rightarrow>
          (case mission_pub_date m of
             None \<Rightarrow> (st1, Some KeyError)
           | Some p \<Rightarrow>
               (case mission_feed_name m of
                  None \<Rightarrow> (st1, Some KeyError)
                | Some f \<Rightarrow>
                    (st1\<lparr>missions_data := AList.update (mission_id m)
                        \<lparr>title = Some t, pub_date = Some p, feed_name = Some f,
                         seen_at = Some stamp\<rparr>
                        (missions_data st)\<rparr>, None))))"

text \<open>
  The loop reads the clock once per mission: \<open>clock n\<close> is its \<open>n\<close>-th reading. An
  exception ends the loop.
\<close>

fun mark_missions_seen ::
  "(nat \<Rightarrow> ustring) \<Rightarrow> state_manager \<Rightarrow> 'a mission_scheme list
     \<Rightarrow> state_manager \<times> py_error option" where
  "mark_missions_seen clock st [] = (st, None)"
| "mark_missions_seen clock st (m # ms) =
     (case mark_mission_seen (clock 0) st m of
        (st', Some e) \<Rightarrow> (st', Some e)
      | (st', None) \<Rightarrow> mark_missions_seen (\<lambda>n. clock (Suc n)) st' ms)"

subsection \<open>\<open>get_new_missions\<close>\<close>

text \<open>
  The loop appends the unseen missions to \<open>new_missions\<close>. The method returns the list;
  the model returns the store with it, to say what the call leaves of the store.
\<close>

definition get_new_missions ::
  "state_manager \<Rightarrow> 'a mission_scheme list \<Rightarrow> state_manager \<times> 'a mission_scheme list" where
  "get_new_missions st missions =
     (st, foldl (\<lambda>new_missions m.
                   if \<not> is_mission_seen st (mission_id m) then new_missions @ [m]
                   else new_missions) [] missions)"

subsection \<open>\<open>get_statistics\<close>\<close>

record statistics =
  total_missions_seen :: nat
  missions_by_feed :: "(ustring \<times> nat) list"
  oldest_mission :: "ustring option"
  newest_mission :: "ustring option"

definition feed_name_or_unknown :: "seen_record \<Rightarrow> ustring" where
  "feed_name_or_unknown d = (case feed_name d of None \<Rightarrow> ascii ''Unknown'' | Some f \<Rightarrow> f)"

definition count_feed :: "(ustring \<times> nat) list \<Rightarrow> seen_record \<Rightarrow> (ustring \<times> nat) list" where
  "count_feed by_feed d =
     AList.update (feed_name_or_unknown d)
       ((case map_of by_feed (feed_name_or_unknown d) of None \<Rightarrow> 0 | Some n \<Rightarrow> n) + 1)
       by_feed"

text \<open>
  The key of \<open>sorted\<close>: the text under \<open>seen_at\<close>, compared as Python compares strings
  (code point by code point, a proper prefix first), which is the order of
  \<open>List_Lexorder\<close> on lists of code points. \<open>sorted\<close> is stable, as \<open>sort_key\<close> is.
\<close>

definition seen_at_or_default :: "seen_record \<Rightarrow> ustring" where
  "seen_at_or_default d = (case seen_at d of None \<Rightarrow> ascii ''1970-01-01'' | Some s \<Rightarrow> s)"

definition get_statistics :: "state_manager \<Rightarrow> statistics" where
  "get_statistics st =
     (let by_feed = foldl count_feed [] (map snd (missions_data st));
          sorted_missions = sort_key seen_at_or_default (map snd (missions_data st))
      in \<lparr>total_missions_seen = card (seen_missions st),
          missions_by_feed = by_feed,
          oldest_mission =
            (if missions_data st \<noteq> [] then title (hd sorted_missions) else None),
          newest_mission =
            (if missions_data st \<noteq> [] then title (last sorted_missions) else None)\<rparr>)"

subsection \<open>\<open>_cleanup_old_missions\<close>\<close>

text \<open>
  The first loop. \<open>fromisoformat\<close> is the library's parser, \<open>None\<close> where it raises
  \<open>ValueError\<close>, which the loop catches. A \<open>TypeError\<close> from the comparison is not
  caught: it leaves the loop and the method.
\<close>

fun missions_to_remove ::
  "(ustring \<Rightarrow> datetime option) \<Rightarrow> int \<Rightarrow> (ustring \<times> seen_record) list
     \<Rightarrow> py_error + ustring list" where
  "missions_to_remove fromisoformat cutoff [] = Inr []"
| "missions_to_remove fromisoformat cutoff ((mid, mdata) # items) =
     (case fromisoformat (seen_at_or_default mdata) of
        None \<Rightarrow> missions_to_remove fromisoformat cutoff items
      | Some (Aware t) \<Rightarrow> Inl TypeError
      | Some (Naive t) \<Rightarrow>
          (case missions_to_remove fromisoformat cutoff items of
             Inl e \<Rightarrow> Inl e
           | Inr ids \<Rightarrow> Inr (if t < cutoff then mid # ids else ids)))"

text \<open>The second loop: \<open>discard\<close> and \<open>pop\<close> for every collected identifier.\<close>

fun remove_missions :: "ustring list \<Rightarrow> state_manager \<Rightarrow> state_manager" where
  "remove_missions [] st = st"
| "remove_missions (mid # ids) st =
     remove_missions ids
       \<lparr>seen_missions = seen_missions st - {mid},
        missions_data = AList.delete mid (missions_data st)\<rparr>"

definition microseconds_per_day :: int where
  "microseconds_per_day = 86400000000"

text \<open>
  The range of \<open>datetime\<close>, from \<open>0001-01-01T00:00:00\<close> to
  \<open>9999-12-31T23:59:59.999999\<close>, in microseconds from \<open>1970-01-01T00:00:00\<close>, and the
  largest number of days of a \<open>timedelta\<close>.
\<close>

definition datetime_min :: int where
  "datetime_min = - 62135596800000000"

definition datetime_max :: int where
  "datetime_max = 253402300799999999"

definition timedelta_max_days :: int where
  "timedelta_max_days = 999999999"

text \<open>
  \<open>datetime.now() - timedelta(days=days_to_keep)\<close>: both the \<open>timedelta\<close> and the
  difference raise \<open>OverflowError\<close> out of range.
\<close>

definition cutoff_date :: "int \<Rightarrow> int \<Rightarrow> py_error + int" where
  "cutoff_date now days_to_keep =
     (if days_to_keep < - timedelta_max_days \<or> timedelta_max_days < days_to_keep
      then Inl OverflowError
      else if now - days_to_keep * microseconds_per_day < datetime_min \<or>
              datetime_max < now - days_to_keep * microseconds_per_day
      then Inl OverflowError
      else Inr (now - days_to_keep * microseconds_per_day))"

text \<open>
  \<open>now\<close> is the reading of \<open>datetime.now()\<close>. The result is the store after the call and
  the exception that left it, if one did: an exception leaves before the second loop, so
  it leaves the store as it was.
\<close>

definition cleanup_old_missions ::
  "(ustring \<Rightarrow> datetime option) \<Rightarrow> int \<Rightarrow> int \<Rightarrow> state_manager
     \<Rightarrow> state_manager \<times> py_error option" where
  "cleanup_old_missions fromisoformat now days_to_keep st =
     (case cutoff_date now days_to_keep of
        Inl e \<Rightarrow> (st, Some e)
      | Inr cutoff \<Rightarrow>
          (case missions_to_remove fromisoformat cutoff (missions_data st) of
             Inl e \<Rightarrow> (st, Some e)
           | Inr ids \<Rightarrow> (remove_missions ids st, None)))"

subsection \<open>\<open>save_state\<close>\<close>

text \<open>
  The outcome of each call to the operating system in \<open>save_state\<close>: whether
  \<open>open(temp_file, 'w')\<close> succeeds, whether \<open>json.dump\<close> and the closing of the file do,
  whether \<open>os.replace\<close> (or \<open>os.rename\<close>, when the target does not exist) does, and
  whether the \<open>os.remove\<close> of the handler does.
\<close>

record io_outcome =
  open_ok :: bool
  dump_ok :: bool
  replace_ok :: bool
  remove_ok :: bool

text \<open>
  The \<open>except\<close> branch: the temporary file is removed if it exists and \<open>False\<close> is
  returned; an \<open>os.remove\<close> that fails raises out of the method.
\<close>

definition save_failed :: "io_outcome \<Rightarrow> disk \<Rightarrow> disk \<times> (py_error + bool)" where
  "save_failed io d =
     (case temp_file d of
        None \<Rightarrow> (d, Inr False)
      | Some c \<Rightarrow>
          if remove_ok io then (d\<lparr>temp_file := None\<rparr>, Inr False) else (d, Inl OSError))"

text \<open>
  \<open>now\<close> and \<open>stamp\<close> are the two readings of the clock, in \<open>_cleanup_old_missions\<close> and
  for \<open>last_update\<close>. Opening the temporary file for writing empties it; a failed dump
  leaves a truncated text in it. The result is the store, the disk, and \<open>True\<close>, \<open>False\<close>
  or the exception that left the method.
\<close>

text \<open>\<open>os.replace(temp_file, data_file)\<close>: the temporary file takes the place of the target.\<close>

definition os_replace :: "disk \<Rightarrow> disk" where
  "os_replace d = \<lparr>data_file = temp_file d, temp_file = None\<rparr>"

definition save_state ::
  "(ustring \<Rightarrow> datetime option) \<Rightarrow> int \<Rightarrow> ustring \<Rightarrow> io_outcome \<Rightarrow> state_manager \<Rightarrow> disk
     \<Rightarrow> state_manager \<times> disk \<times> (py_error + bool)" where
  "save_state fromisoformat now stamp io st d =
     (case cleanup_old_missions fromisoformat now 30 st of
        (st', Some e) \<Rightarrow> (st', save_failed io d)
      | (st', None) \<Rightarrow>
          (let data = Snapshot (Some (seen_missions st')) (Some (missions_data st')) stamp in
           if \<not> open_ok io then (st', save_failed io d)
           else if \<not> dump_ok io then (st', save_failed io (d\<lparr>temp_file := Some Garbage\<rparr>))
           else if \<not> replace_ok io then (st', save_failed io (d\<lparr>temp_file := Some data\<rparr>))
           else (st', os_replace (d\<lparr>temp_file := Some data\<rparr>), Inr True)))"

subsection \<open>\<open>reset_state\<close>\<close>

text \<open>Both collections are cleared before the file is removed; \<open>remove_ok\<close> as above.\<close>

definition reset_state :: "io_outcome \<Rightarrow> state_manager \<Rightarrow> disk \<Rightarrow> state_manager \<times> disk \<times> bool" where
  "reset_state io st d =
     (case data_file d of
        None \<Rightarrow> (empty_state, d, True)
      | Some c \<Rightarrow>
          if remove_ok io then (empty_state, d\<lparr>data_file := None\<rparr>, True)
          else (empty_state, d, False))"

section \<open>\<open>discord_notifier.py\<close>: \<open>send_multiple_missions\<close>\<close>

subsection \<open>The mission dictionaries\<close>

text \<open>
  The notifier takes mission dictionaries of any content. The values that
  \<open>_create_mission_embed\<close> inspects are texts, integers, \<open>None\<close> and lists of such; a key of
  the dictionary may be absent (\<open>None\<close> at the field).
\<close>

datatype pyval = PStr ustring | PInt int | PNone | PList "pyval list"

record mission_dict =
  key_content :: "pyval option"
  key_categories :: "pyval option"
  key_title :: "pyval option"
  key_link :: "pyval option"
  key_feed_color :: "pyval option"
  key_budget :: "pyval option"
  key_feed_name :: "pyval option"
  key_pub_date_parsed :: "pyval option"

text \<open>An exception ends the evaluation: \<open>err_bind\<close> passes a value on, or the error.\<close>

definition err_bind :: "py_error + 'a \<Rightarrow> ('a \<Rightarrow> py_error + 'b) \<Rightarrow> py_error + 'b" where
  "err_bind r f = (case r of Inl e \<Rightarrow> Inl e | Inr v \<Rightarrow> f v)"

text \<open>\<open>mission[key]\<close>\<close>

definition getitem :: "pyval option \<Rightarrow> py_error + pyval" where
  "getitem v = (case v of None \<Rightarrow> Inl KeyError | Some x \<Rightarrow> Inr x)"

text \<open>\<open>len(v)\<close>\<close>

fun py_len :: "pyval \<Rightarrow> py_error + nat" where
  "py_len (PStr s) = Inr (length s)"
| "py_len (PList vs) = Inr (length vs)"
| "py_len (PInt i) = Inl TypeError"
| "py_len PNone = Inl TypeError"

text \<open>The truth value of \<open>v\<close> in a condition.\<close>

fun truthy :: "pyval \<Rightarrow> bool" where
  "truthy (PStr s) = (s \<noteq> [])"
| "truthy (PList vs) = (vs \<noteq> [])"
| "truthy (PInt i) = (i \<noteq> 0)"
| "truthy PNone = False"

text \<open>\<open>sep.join(v)\<close>: over the items of a list, which must be texts, or the characters of a text.\<close>

fun join_texts :: "ustring \<Rightarrow> ustring list \<Rightarrow> ustring" where
  "join_texts sep [] = []"
| "join_texts sep [w] = w"
| "join_texts sep (w # ws) = w @ sep @ join_texts sep ws"

fun str_items :: "pyval list \<Rightarrow> py_error + ustring list" where
  "str_items [] = Inr []"
| "str_items (PStr s # vs) = err_bind (str_items vs) (\<lambda>ws. Inr (s # ws))"
| "str_items (v # vs) = Inl TypeError"

fun py_join :: "ustring \<Rightarrow> pyval \<Rightarrow> py_error + ustring" where
  "py_join sep (PList vs) = err_bind (str_items vs) (\<lambda>ws. Inr (join_texts sep ws))"
| "py_join sep (PStr s) = Inr (join_texts sep (map (\<lambda>c. [c]) s))"
| "py_join sep (PInt i) = Inl TypeError"
| "py_join sep PNone = Inl TypeError"

subsection \<open>\<open>_create_mission_embed\<close>\<close>

text \<open>
  The fields of the embed that come from the mission. The text that \<open>format_date_fr\<close>
  makes of \<open>pub_date_parsed\<close> is kept as the value it is made from: that function catches
  every exception and always returns a text. The footer and the timestamp do not depend on
  the mission.
\<close>

record embed =
  embed_title :: pyval
  embed_url :: pyval
  embed_color :: pyval
  embed_description :: pyval
  embed_budget :: pyval
  embed_categories :: ustring
  embed_source :: pyval
  embed_published :: pyval

text \<open>\<open>content[:300] + "..."\<close> when \<open>len(content) > 300\<close>\<close>

definition limit_content :: "pyval \<Rightarrow> py_error + pyval" where
  "limit_content content =
     err_bind (py_len content) (\<lambda>n.
       if 300 < n then
         (case content of
            PStr s \<Rightarrow> Inr (PStr (take 300 s @ ascii ''...''))
          | PList vs \<Rightarrow> Inl TypeError
          | PInt i \<Rightarrow> Inl TypeError
          | PNone \<Rightarrow> Inl TypeError)
       else Inr content)"

definition no_categories :: ustring where
  "no_categories = ascii ''Non sp'' @ [233] @ ascii ''cifi'' @ [233] @ ascii ''es''"

definition create_mission_embed :: "mission_dict \<Rightarrow> py_error + embed" where
  "create_mission_embed mission =
     err_bind (getitem (key_content mission)) (\<lambda>content.
     err_bind (limit_content content) (\<lambda>content.
     err_bind (getitem (key_categories mission)) (\<lambda>categories.
     err_bind (if truthy categories then py_join (ascii '', '') categories
               else Inr no_categories) (\<lambda>categories_str.
     err_bind (getitem (key_title mission)) (\<lambda>title.
     err_bind (getitem (key_link mission)) (\<lambda>link.
     err_bind (getitem (key_feed_color mission)) (\<lambda>feed_color.
     err_bind (getitem (key_budget mission)) (\<lambda>budget.
     err_bind (getitem (key_feed_name mission)) (\<lambda>feed_name.
     err_bind (getitem (key_pub_date_parsed mission)) (\<lambda>pub_date_parsed.
       Inr \<lparr>embed_title = title, embed_url = link, embed_color = feed_color,
            embed_description = content, embed_budget = budget,
            embed_categories = categories_str, embed_source = feed_name,
            embed_published = pub_date_parsed\<rparr>))))))))))"

text \<open>The list comprehension over the batch: the first exception ends it.\<close>

fun create_embeds :: "mission_dict list \<Rightarrow> py_error + embed list" where
  "create_embeds [] = Inr []"
| "create_embeds (mission # batch) =
     err_bind (create_mission_embed mission) (\<lambda>e.
     err_bind (create_embeds batch) (\<lambda>es. Inr (e # es)))"

subsection \<open>\<open>send_multiple_missions\<close>\<close>

text \<open>
  \<open>post k\<close> tells whether the \<open>k\<close>-th call of \<open>session.post\<close> (with \<open>raise_for_status\<close>)
  succeeds. The loop runs \<open>i\<close> over \<open>range(0, len(missions), 10)\<close>. Inside the \<open>try\<close> the
  embeds of the batch are built first: an exception there is caught like one of the post,
  and the batch is neither posted nor counted. The model keeps the lists of embeds posted
  so far, in order, beside \<open>success_count\<close>.
\<close>

function send_batches ::
  "(nat \<Rightarrow> bool) \<Rightarrow> mission_dict list \<Rightarrow> nat \<Rightarrow> embed list list \<times> nat
     \<Rightarrow> embed list list \<times> nat" where
  "send_batches post missions i (posted, success_count) =
     (if i < length missions then
        (let batch = take 10 (drop i missions) in
         case create_embeds batch of
           Inl e \<Rightarrow> send_batches post missions (i + 10) (posted, success_count)
         | Inr embeds \<Rightarrow>
             send_batches post missions (i + 10)
               (posted @ [embeds],
                if post (length posted) then success_count + length batch
                else success_count))
      else (posted, success_count))"
  by pat_completeness auto
termination
  by (relation "measure (\<lambda>(post, missions, i, acc). length missions - i)") auto

declare send_batches.simps [simp del]

definition send_multiple_missions ::
  "(nat \<Rightarrow> bool) \<Rightarrow> mission_dict list \<Rightarrow> embed list list \<times> nat" where
  "send_multiple_missions post missions =
     (if missions = [] then ([], 0) else send_batches post missions 0 ([], 0))"

section \<open>Sample data\<close>

text \<open>The description quoted in the comment of the extraction pattern, with a view link.\<close>

definition example_description :: ustring where
  "example_description =
     ascii ''Budget : Moins de 500 '' @ [8364] @ ascii '' - Cat'' @ [233] @
     ascii ''gories : D'' @ [233] @ ascii ''veloppement sp'' @ [233] @
     ascii ''cifique, API Voir ce projet sur Codeur''"

text \<open>
  A mission with every key, numbered by its colour, and its embed; the same mission
  without the key \<open>content\<close>.
\<close>

definition sample_mission :: "int \<Rightarrow> mission_dict" where
  "sample_mission n =
     \<lparr>key_content = Some (PStr (ascii ''Site vitrine'')),
      key_categories = Some (PList [PStr (ascii ''Web''), PStr (ascii ''API'')]),
      key_title = Some (PStr (ascii ''Mission'')),
      key_link = Some (PStr (ascii ''https://www.codeur.com/projects/1'')),
      key_feed_color = Some (PInt n),
      key_budget = Some (PStr (ascii ''500'')),
      key_feed_name = Some (PStr (ascii ''Web'')),
      key_pub_date_parsed = Some PNone\<rparr>"

definition sample_embed :: "int \<Rightarrow> embed" where
  "sample_embed n =
     \<lparr>embed_title = PStr (ascii ''Mission''),
      embed_url = PStr (ascii ''https://www.codeur.com/projects/1''),
      embed_color = PInt n,
      embed_description = PStr (ascii ''Site vitrine''),
      embed_budget = PStr (ascii ''500''),
      embed_categories = ascii ''Web, API'',
      embed_source = PStr (ascii ''Web''),
      embed_published = PNone\<rparr>"

definition mission_without_content :: "int \<Rightarrow> mission_dict" where
  "mission_without_content n = (sample_mission n)\<lparr>key_content := None\<rparr>"

text \<open>A batch of 23 missions, and a batch of 12 whose first mission has no content.\<close>

definition sample_missions :: "mission_dict list" where
  "sample_missions = map sample_mission
     [1, 2, 3, 4, 5, 6, 7, 8, 9, 10, 11, 12, 13, 14, 15, 16, 17, 18, 19, 20, 21, 22, 23]"

text \<open>Every post succeeds; every post but the second succeeds.\<close>

definition all_posts_succeed :: "nat \<Rightarrow> bool" where
  "all_posts_succeed k = True"

definition second_post_fails :: "nat \<Rightarrow> bool" where
  "second_post_fails k = (k \<noteq> 1)"

definition missions_with_gap :: "mission_dict list" where
  "missions_with_gap = mission_without_content 1 #
     map sample_mission [2, 3, 4, 5, 6, 7, 8, 9, 10, 11, 12]"

text \<open>
  The library's \<open>datetime.fromisoformat\<close> on the texts of the examples: three naive dates,
  one date with a UTC offset, and \<open>ValueError\<close> on the other texts used, none of which
  is a date.
\<close>

definition sample_fromisoformat :: "ustring \<Rightarrow> datetime option" where
  "sample_fromisoformat s =
     (if s = ascii ''1970-01-01'' then Some (Naive 0)
      else if s = ascii ''2024-01-01T00:00:00'' then Some (Naive 1704067200000000)
      else if s = ascii ''2024-02-15T00:00:00'' then Some (Naive 1707955200000000)
      else if s = ascii ''2020-01-01T00:00:00+00:00'' then Some (Aware 1577836800000000)
      else None)"

text \<open>The clock at \<open>2024-03-01T00:00:00\<close>; thirty days before is \<open>2024-01-31T00:00:00\<close>.\<close>

definition sample_now :: int where
  "sample_now = 1709251200000000"

definition sample_record :: "string \<Rightarrow> string \<Rightarrow> ustring option \<Rightarrow> seen_record" where
  "sample_record t f s =
     \<lparr>title = Some (ascii t), pub_date = Some (ascii ''Mon, 01 Jan 2024 10:00:00 +0100''),
      feed_name = Some (ascii f), seen_at = s\<rparr>"

text \<open>
  A store of four records: seen on 1 January 2024, seen on 15 February 2024, with a text
  under \<open>seen_at\<close> that is no date, and with no \<open>seen_at\<close> at all.
\<close>

definition sample_store :: state_manager where
  "sample_store =
     \<lparr>seen_missions = {ascii ''m1'', ascii ''m2'', ascii ''m3'', ascii ''m4''},
      missions_data =
        [(ascii ''m1'', sample_record ''january'' ''Web'' (Some (ascii ''2024-01-01T00:00:00''))),
         (ascii ''m2'', sample_record ''february'' ''Mobile'' (Some (ascii ''2024-02-15T00:00:00''))),
         (ascii ''m3'', sample_record ''undated'' ''Web'' (Some (ascii ''zzz''))),
         (ascii ''m4'', sample_record ''missing'' ''Web'' None)]\<rparr>"

text \<open>A store whose only record has no \<open>seen_at\<close>.\<close>

definition store_without_date :: state_manager where
  "store_without_date =
     \<lparr>seen_missions = {ascii ''m4''},
      missions_data = [(ascii ''m4'', sample_record ''missing'' ''Web'' None)]\<rparr>"

text \<open>A store with a record without \<open>seen_at\<close> and a record whose date has a UTC offset.\<close>

definition store_with_offset :: state_manager where
  "store_with_offset =
     \<lparr>seen_missions = {ascii ''m4'', ascii ''m5''},
      missions_data =
        [(ascii ''m4'', sample_record ''missing'' ''Web'' None),
         (ascii ''m5'', sample_record ''offset'' ''Web''
            (Some (ascii ''2020-01-01T00:00:00+00:00'')))]\<rparr>"

text \<open>A mission with all its keys, and a reading of the clock as \<open>isoformat\<close> renders it.\<close>

definition sample_seen_mission :: mission where
  "sample_seen_mission =
     \<lparr>mission_id = ascii ''m9'', mission_title = Some (ascii ''march''),
      mission_pub_date = Some (ascii ''Fri, 01 Mar 2024 09:00:00 +0100''),
      mission_feed_name = Some (ascii ''Web'')\<rparr>"

definition sample_stamp :: ustring where
  "sample_stamp = ascii ''2024-03-01T00:00:00''"

text \<open>
  A disk with a committed state file and no temporary file; a state file whose list of
  identifiers names \<open>m1\<close> while its record map is empty.
\<close>

definition sample_disk :: disk where
  "sample_disk =
     \<lparr>data_file = Some (Snapshot (Some {ascii ''m2''})
        (Some [(ascii ''m2'', sample_record ''february'' ''Mobile''
                  (Some (ascii ''2024-02-15T00:00:00'')))])
        (ascii ''2024-02-15T00:00:00'')),
      temp_file = None\<rparr>"

definition mismatched_disk :: disk where
  "mismatched_disk =
     \<lparr>data_file = Some (Snapshot (Some {ascii ''m1''}) (Some []) (ascii ''2024-02-15T00:00:00'')),
      temp_file = None\<rparr>"

text \<open>
  Every call succeeds; the dump fails; the dump fails and so does the removal of the
  temporary file.
\<close>

definition io_all_ok :: io_outcome where
  "io_all_ok = \<lparr>open_ok = True, dump_ok = True, replace_ok = True, remove_ok = True\<rparr>"

definition io_dump_fails :: io_outcome where
  "io_dump_fails = \<lparr>open_ok = True, dump_ok = False, replace_ok = True, remove_ok = True\<rparr>"

definition io_dump_and_remove_fail :: io_outcome where
  "io_dump_and_remove_fail =
     \<lparr>open_ok = True, dump_ok = False, replace_ok = True, remove_ok = False\<rparr>"

text \<open>The store \<open>sample_store\<close> after the cleanup at \<open>sample_now\<close>.\<close>

definition pruned_store :: state_manager where
  "pruned_store =
     \<lparr>seen_missions = {ascii ''m2'', ascii ''m3''},
      missions_data =
        [(ascii ''m2'', sample_record ''february'' ''Mobile'' (Some (ascii ''2024-02-15T00:00:00''))),
         (ascii ''m3'', sample_record ''undated'' ''Web'' (Some (ascii ''zzz'')))]\<rparr>"

text \<open>A store of two records, the one with no date under \<open>seen_at\<close> first.\<close>

definition store_undated_first :: state_manager where
  "store_undated_first =
     \<lparr>seen_missions = {ascii ''m3'', ascii ''m2''},
      missions_data =
        [(ascii ''m3'', sample_record ''undated'' ''Web'' (Some (ascii ''zzz''))),
         (ascii ''m2'', sample_record ''february'' ''Mobile''
            (Some (ascii ''2024-02-15T00:00:00'')))]\<rparr>"

section \<open>Auxiliary notions for the statements\<close>

text \<open>The slice \<open>missions[i + 10 * k : i + 10 * k + 10]\<close>, and the slices of the loop.\<close>

definition batch_at :: "'m list \<Rightarrow> nat \<Rightarrow> nat \<Rightarrow> 'm list" where
  "batch_at missions i k = take 10 (drop (i + 10 * k) missions)"

definition slices :: "'m list \<Rightarrow> 'm list list" where
  "slices missions = map (batch_at missions 0) [0..<(length missions + 9) div 10]"

text \<open>
  The loop of \<open>send_multiple_missions\<close> over a list of batches, and the payloads it posts:
  the embeds of every batch whose embeds can all be built.
\<close>

fun deliver ::
  "(nat \<Rightarrow> bool) \<Rightarrow> mission_dict list list \<Rightarrow> embed list list \<times> nat
     \<Rightarrow> embed list list \<times> nat" where
  "deliver post [] acc = acc"
| "deliver post (batch # batches) (posted, success_count) =
     (case create_embeds batch of
        Inl e \<Rightarrow> deliver post batches (posted, success_count)
      | Inr embeds \<Rightarrow>
          deliver post batches
            (posted @ [embeds],
             if post (length posted) then success_count + length batch else success_count))"

definition payloads :: "mission_dict list list \<Rightarrow> embed list list" where
  "payloads batches =
     concat (map (\<lambda>batch. case create_embeds batch of Inl e \<Rightarrow> [] | Inr embeds \<Rightarrow> [embeds])
       batches)"

text \<open>
  The test of the first loop of \<open>_cleanup_old_missions\<close> on one record: its date, or
  \<open>1970-01-01\<close> when it has none, parses to a naive \<open>datetime\<close> before the cutoff.
\<close>

definition is_old :: "(ustring \<Rightarrow> datetime option) \<Rightarrow> int \<Rightarrow> seen_record \<Rightarrow> bool" where
  "is_old fromisoformat cutoff d =
     (case fromisoformat (seen_at_or_default d) of
        Some (Naive t) \<Rightarrow> t < cutoff
      | Some (Aware t) \<Rightarrow> False
      | None \<Rightarrow> False)"

text \<open>The record's date parses to an aware \<open>datetime\<close>: the comparison raises.\<close>

definition has_offset :: "(ustring \<Rightarrow> datetime option) \<Rightarrow> seen_record \<Rightarrow> bool" where
  "has_offset fromisoformat d =
     (case fromisoformat (seen_at_or_default d) of
        Some (Aware t) \<Rightarrow> True
      | Some (Naive t) \<Rightarrow> False
      | None \<Rightarrow> False)"

text \<open>
  The condition of removal in the words of the specification: the record has an
  \<open>observedAt\<close>, it parses, and it is strictly older than the cutoff.
\<close>

definition spec_expired :: "(ustring \<Rightarrow> datetime option) \<Rightarrow> int \<Rightarrow> seen_record \<Rightarrow> bool" where
  "spec_expired fromisoformat cutoff d =
     (case seen_at d of
        None \<Rightarrow> False
      | Some s \<Rightarrow>
          (case fromisoformat s of
             None \<Rightarrow> False
           | Some (Naive t) \<Rightarrow> t < cutoff
           | Some (Aware t) \<Rightarrow> t < cutoff))"

text \<open>
  Lockstep: the identifiers seen are the keys of the records, each key once.
\<close>

definition lockstep :: "state_manager \<Rightarrow> bool" where
  "lockstep st \<longleftrightarrow>
     seen_missions st = set (map fst (missions_data st)) \<and> distinct (map fst (missions_data st))"

text \<open>
  The sort key of the statistics in the words of the specification: the time that
  \<open>observedAt\<close> parses to, and the start of the epoch when it is missing or does not parse.
\<close>

definition spec_sort_key :: "(ustring \<Rightarrow> datetime option) \<Rightarrow> seen_record \<Rightarrow> int" where
  "spec_sort_key fromisoformat d =
     (case seen_at d of
        None \<Rightarrow> 0
      | Some s \<Rightarrow>
          (case fromisoformat s of
             None \<Rightarrow> 0
           | Some (Naive t) \<Rightarrow> t
           | Some (Aware t) \<Rightarrow> t))"

text \<open>The number of records of a feed.\<close>

definition feed_count :: "state_manager \<Rightarrow> ustring \<Rightarrow> nat" where
  "feed_count st f =
     length (filter (\<lambda>d. feed_name_or_unknown d = f) (map snd (missions_data st)))"

text \<open>The mission dictionary has the three keys that \<open>mark_mission_seen\<close> copies.\<close>

definition has_record_keys :: "'a mission_scheme \<Rightarrow> bool" where
  "has_record_keys m \<longleftrightarrow>
     mission_title m \<noteq> None \<and> mission_pub_date m \<noteq> None \<and> mission_feed_name m \<noteq> None"

text \<open>The object that \<open>save_state\<close> serialises for a store.\<close>

definition snapshot :: "state_manager \<Rightarrow> ustring \<Rightarrow> file_content" where
  "snapshot st stamp = Snapshot (Some (seen_missions st)) (Some (missions_data st)) stamp"



section \<open>Properties of the field extraction\<close>

lemmas pattern_defs =
  ascii_def categories_word_def budget_pattern_def strip_pattern_def link_pattern_def
  spaces_pattern_def isspace_def strip_def group_def

text \<open>
  C2. On the description \<open>Budget : Moins de 500 \<close>\<open>U+20AC\<close>\<open> - Cat\<close>\<open>U+00E9\<close>\<open>gories :
  D\<close>\<open>U+00E9\<close>\<open>veloppement sp\<close>\<open>U+00E9\<close>\<open>cifique, API Voir ce projet sur Codeur\<close> the extraction
  returns the budget \<open>Moins de 500 \<close>\<open>U+20AC\<close> and two categories, \<open>D\<close>\<open>U+00E9\<close>\<open>veloppement
  sp\<close>\<open>U+00E9\<close>\<open>cifique\<close> and the empty text: the lazy second group ends at the comma, before
  the first capital letter that follows, which is the \<open>A\<close> of \<open>API\<close>. The category
  \<open>API\<close> is not returned.
\<close>

theorem C2_extract_example:
  "extract_budget_and_categories example_description =
     (ascii ''Moins de 500 '' @ [8364],
      [ascii ''D'' @ [233] @ ascii ''veloppement sp'' @ [233] @ ascii ''cifique'', []])"
  by (simp add: example_description_def extract_budget_and_categories_def pattern_defs)

text \<open>
  C3. On the same description, in which the extraction pattern matches, the cleaned
  content is \<open>D\<close>\<open>U+00E9\<close>\<open>veloppement sp\<close>\<open>U+00E9\<close>\<open>cifique, API\<close>: the first substitution ends
  right after \<open>Cat\<close>\<open>U+00E9\<close>\<open>gories :\<close>, since its last repetition is lazy, and the text of the
  category list stays in the content.
\<close>

theorem C3_main_content_example:
  "re_search budget_pattern example_description \<noteq> None \<and>
   extract_main_content example_description =
     ascii ''D'' @ [233] @ ascii ''veloppement sp'' @ [233] @ ascii ''cifique, API''"
  by (simp add: example_description_def extract_main_content_def pattern_defs re_sub.simps)

section \<open>Properties of the seen-item store: \<open>get_new_missions\<close>\<close>

lemma foldl_append_filter:
  "foldl (\<lambda>acc x. if P x then acc @ [x] else acc) acc xs = acc @ filter P xs"
  by (induction xs arbitrary: acc) simp_all

text \<open>
  C5. \<open>get_new_missions\<close> returns exactly the missions of its input whose identifier
  is not in \<open>seen_missions\<close>, in the order of the input; it leaves the store as it was;
  and applied to its own result, with the same store, it returns that result again.
\<close>

theorem C5_get_new_missions:
  "get_new_missions st missions =
     (st, filter (\<lambda>m. mission_id m \<notin> seen_missions st) missions) \<and>
   snd (get_new_missions st (snd (get_new_missions st missions))) =
     snd (get_new_missions st missions)"
  by (simp add: get_new_missions_def is_mission_seen_def foldl_append_filter)

section \<open>Properties of the batch delivery\<close>

lemma ceil10_lower: "(n::nat) \<le> 10 * ((n + 9) div 10)"
proof -
  define q where "q = (n + 9) div 10"
  define r where "r = (n + 9) mod 10"
  have "n + 9 = 10 * q + r" by (simp add: q_def r_def)
  moreover have "r < 10" by (simp add: r_def)
  ultimately have "n \<le> 10 * q" by linarith
  then show ?thesis by (simp add: q_def)
qed

lemma ceil10_upper: "k < (n + 9) div 10 \<Longrightarrow> 10 * k < (n::nat)"
proof -
  assume k: "k < (n + 9) div 10"
  define q where "q = (n + 9) div 10"
  have "10 * q \<le> n + 9" by (simp add: q_def)
  moreover from k have "Suc k \<le> q" by (simp add: q_def)
  then have "10 * Suc k \<le> 10 * q" by (rule mult_le_mono2)
  ultimately show ?thesis by simp
qed

lemma batches_step:
  assumes "i < (n::nat)"
  shows "(n - i + 9) div 10 = Suc ((n - (i + 10) + 9) div 10)"
proof (cases "i + 10 \<le> n")
  case True
  then have "n - i + 9 = (n - (i + 10) + 9) + 10" by simp
  then show ?thesis by (simp only: div_add_self2)
next
  case False
  with assms have "10 * 1 \<le> n - i + 9" "n - i + 9 < 10 * Suc 1" by simp_all
  then have "(n - i + 9) div 10 = 1" by (rule div_nat_eqI)
  moreover from False have "n - (i + 10) = 0" by simp
  ultimately show ?thesis by simp
qed

lemma batches_unfold:
  assumes "i < length missions"
  shows "map (batch_at missions i) [0..<(length missions - i + 9) div 10] =
     take 10 (drop i missions) #
     map (batch_at missions (i + 10)) [0..<(length missions - (i + 10) + 9) div 10]"
proof -
  have "map (batch_at missions i) [0..<Suc m] =
      take 10 (drop i missions) # map (batch_at missions (i + 10)) [0..<m]" for m
    by (simp add: upt_conv_Cons map_Suc_upt[symmetric] batch_at_def ac_simps del: upt_Suc)
  then show ?thesis by (simp only: batches_step[OF assms])
qed

lemma send_batches_deliver:
  "send_batches post missions i acc =
     deliver post (map (batch_at missions i) [0..<(length missions - i + 9) div 10]) acc"
proof (induction post missions i acc rule: send_batches.induct)
  case (1 post missions i posted success_count)
  let ?here = "map (batch_at missions i) [0..<(length missions - i + 9) div 10]"
  let ?next = "map (batch_at missions (i + 10)) [0..<(length missions - (i + 10) + 9) div 10]"
  let ?batch = "take 10 (drop i missions)"
  show ?case
  proof (cases "i < length missions")
    case False
    then show ?thesis by (subst send_batches.simps) simp
  next
    case True
    have here: "?here = ?batch # ?next" using True by (rule batches_unfold)
    show ?thesis
    proof (cases "create_embeds ?batch")
      case (Inl e)
      have "send_batches post missions i (posted, success_count) =
          send_batches post missions (i + 10) (posted, success_count)"
        using True Inl by (subst send_batches.simps) (simp add: Let_def)
      also have "\<dots> = deliver post ?next (posted, success_count)"
        by (rule 1(1)[OF True refl Inl])
      also have "\<dots> = deliver post (?batch # ?next) (posted, success_count)"
        using Inl by simp
      finally show ?thesis unfolding here .
    next
      case (Inr embeds)
      let ?acc = "(posted @ [embeds],
          if post (length posted) then success_count + length ?batch else success_count)"
      have "send_batches post missions i (posted, success_count) =
          send_batches post missions (i + 10) ?acc"
        using True Inr by (subst send_batches.simps) (simp add: Let_def)
      also have "\<dots> = deliver post ?next ?acc"
        by (rule 1(2)[OF True refl Inr])
      also have "\<dots> = deliver post (?batch # ?next) (posted, success_count)"
        using Inr by simp
      finally show ?thesis unfolding here .
    qed
  qed
qed

lemma create_embeds_map:
  "create_embeds batch = Inr embeds \<Longrightarrow> map Inr embeds = map create_mission_embed batch"
proof (induction batch arbitrary: embeds)
  case Nil
  then show ?case by simp
next
  case (Cons m batch)
  then show ?case
    by (auto simp: err_bind_def split: sum.splits)
qed

lemma create_embeds_length:
  "create_embeds batch = Inr embeds \<Longrightarrow> length embeds = length batch"
  using create_embeds_map[of batch embeds] by (metis length_map)

lemma create_embeds_total:
  "\<forall>m \<in> set batch. \<exists>e. create_mission_embed m = Inr e \<Longrightarrow>
     \<exists>embeds. create_embeds batch = Inr embeds"
  by (induction batch) (auto simp: err_bind_def)

lemma deliver_eq:
  "deliver post batches (posted, cnt) =
     (posted @ payloads batches,
      cnt + (\<Sum>k<length (payloads batches).
               if post (length posted + k) then length (payloads batches ! k) else 0))"
proof (induction batches arbitrary: posted cnt)
  case Nil
  show ?case by (simp add: payloads_def)
next
  case (Cons batch batches)
  show ?case
  proof (cases "create_embeds batch")
    case (Inl e)
    then have p: "payloads (batch # batches) = payloads batches" by (simp add: payloads_def)
    from Inl have "deliver post (batch # batches) (posted, cnt) =
        deliver post batches (posted, cnt)" by simp
    then show ?thesis unfolding p by (simp only: Cons.IH)
  next
    case (Inr embeds)
    then have p: "payloads (batch # batches) = embeds # payloads batches"
      by (simp add: payloads_def)
    have l: "length embeds = length batch" using Inr by (rule create_embeds_length)
    define S where "S = (\<Sum>k<length (embeds # payloads batches).
          if post (length posted + k) then length ((embeds # payloads batches) ! k) else 0)"
    define S' where "S' = (\<Sum>k<length (payloads batches).
          if post (length (posted @ [embeds]) + k) then length (payloads batches ! k) else 0)"
    have s: "S = (if post (length posted) then length batch else 0) + S'"
      unfolding S_def S'_def
      by (simp add: sum.lessThan_Suc_shift l del: sum.lessThan_Suc cong: if_cong)
    from Inr have "deliver post (batch # batches) (posted, cnt) =
        deliver post batches
          (posted @ [embeds], if post (length posted) then cnt + length batch else cnt)"
      by simp
    also have "\<dots> = ((posted @ [embeds]) @ payloads batches,
        (if post (length posted) then cnt + length batch else cnt) + S')"
      unfolding S'_def by (rule Cons.IH)
    also have "\<dots> = (posted @ embeds # payloads batches, cnt + S)"
      by (simp add: s)
    finally show ?thesis unfolding p S_def .
  qed
qed

lemma send_multiple_missions_eq:
  "send_multiple_missions post missions =
     (payloads (slices missions),
      (\<Sum>k<length (payloads (slices missions)).
          if post k then length (payloads (slices missions) ! k) else 0))"
proof (cases "missions = []")
  case True
  then show ?thesis by (simp add: send_multiple_missions_def slices_def payloads_def)
next
  case False
  then show ?thesis
    by (simp add: send_multiple_missions_def send_batches_deliver deliver_eq slices_def
          cong: if_cong)
qed

lemma concat_batches:
  "concat (map (batch_at missions 0) [0..<m]) = take (10 * m) missions"
proof (induction m)
  case 0
  show ?case by simp
next
  case (Suc m)
  have "take (10 * m) missions @ take 10 (drop (10 * m) missions) = take (10 * m + 10) missions"
    by (simp add: take_add)
  with Suc show ?case by (simp add: batch_at_def ac_simps)
qed

lemma concat_slices: "concat (slices missions) = missions"
  by (simp add: slices_def concat_batches ceil10_lower)

lemma slices_sizes:
  assumes "batch \<in> set (slices missions)"
  shows "batch \<noteq> [] \<and> length batch \<le> 10 \<and> set batch \<subseteq> set missions"
proof -
  from assms obtain k where k: "k < (length missions + 9) div 10"
    and b: "batch = batch_at missions 0 k" by (auto simp: slices_def)
  from k have "10 * k < length missions" by (rule ceil10_upper)
  moreover have "set (take 10 (drop (10 * k) missions)) \<subseteq> set missions"
    by (meson set_take_subset set_drop_subset subset_trans)
  ultimately show ?thesis using b by (simp add: batch_at_def)
qed

lemma payloads_all:
  "\<forall>batch \<in> set batches. \<forall>m \<in> set batch. \<exists>e. create_mission_embed m = Inr e \<Longrightarrow>
     map (map Inr) (payloads batches) = map (map create_mission_embed) batches"
proof (induction batches)
  case Nil
  show ?case by (simp add: payloads_def)
next
  case (Cons batch batches)
  from Cons.prems have "\<forall>m \<in> set batch. \<exists>e. create_mission_embed m = Inr e" by simp
  then obtain embeds where e: "create_embeds batch = Inr embeds"
    using create_embeds_total by blast
  then have p: "payloads (batch # batches) = embeds # payloads batches"
    by (simp add: payloads_def)
  from Cons.prems have "map (map Inr) (payloads batches) = map (map create_mission_embed) batches"
    by (intro Cons.IH) simp
  with create_embeds_map[OF e] show ?case by (simp add: p)
qed

lemma sample_mission_embed: "create_mission_embed (sample_mission n) = Inr (sample_embed n)"
  by (simp add: create_mission_embed_def sample_mission_def sample_embed_def err_bind_def
      getitem_def limit_content_def ascii_def)

lemma mission_without_content_embed:
  "create_mission_embed (mission_without_content n) = Inl KeyError"
  by (simp add: create_mission_embed_def mission_without_content_def err_bind_def getitem_def)

text \<open>
  C9. \<open>send_multiple_missions\<close> goes through the slices of ten of the batch and posts the
  embeds of every slice whose embeds can all be built; the count it returns is the total
  size of the payloads whose post succeeded. When the embed of every mission can be built,
  it posts \<open>\<lceil>n / 10\<rceil>\<close> payloads for \<open>n\<close> missions, each of at least one and at most ten
  embeds, which together are the embeds of the batch in order, and a batch of 23 missions
  is posted as payloads of 10, 10 and 3.
\<close>

theorem C9_send_multiple_missions:
  "fst (send_multiple_missions post missions) = payloads (slices missions) \<and>
   snd (send_multiple_missions post missions) =
     (\<Sum>k<length (fst (send_multiple_missions post missions)).
         if post k then length (fst (send_multiple_missions post missions) ! k) else 0) \<and>
   ((\<forall>m \<in> set missions. \<exists>e. create_mission_embed m = Inr e) \<longrightarrow>
      length (fst (send_multiple_missions post missions)) = (length missions + 9) div 10 \<and>
      (\<forall>c \<in> set (fst (send_multiple_missions post missions)). c \<noteq> [] \<and> length c \<le> 10) \<and>
      map Inr (concat (fst (send_multiple_missions post missions))) =
        map create_mission_embed missions \<and>
      (length missions = 23 \<longrightarrow>
         map length (fst (send_multiple_missions post missions)) = [10, 10, 3]))"
proof -
  let ?calls = "payloads (slices missions)"
  have calls: "fst (send_multiple_missions post missions) = ?calls"
    by (simp add: send_multiple_missions_eq)
  have cnt: "snd (send_multiple_missions post missions) =
      (\<Sum>k<length ?calls. if post k then length (?calls ! k) else 0)"
    by (simp add: send_multiple_missions_eq)
  have good: "length ?calls = (length missions + 9) div 10 \<and>
      (\<forall>c \<in> set ?calls. c \<noteq> [] \<and> length c \<le> 10) \<and>
      map Inr (concat ?calls) = map create_mission_embed missions \<and>
      (length missions = 23 \<longrightarrow> map length ?calls = [10, 10, 3])"
    if all: "\<forall>m \<in> set missions. \<exists>e. create_mission_embed m = Inr e"
  proof -
    have "\<forall>batch \<in> set (slices missions). \<forall>m \<in> set batch. \<exists>e. create_mission_embed m = Inr e"
      using all slices_sizes by blast
    then have eq: "map (map Inr) ?calls = map (map create_mission_embed) (slices missions)"
      by (rule payloads_all)
    have len: "length ?calls = length (slices missions)"
      using arg_cong[OF eq, of length] by simp
    have lens: "map length ?calls = map length (slices missions)"
      using arg_cong[OF eq, of "map length"] by (simp add: comp_def)
    have n: "length ?calls = (length missions + 9) div 10"
      using len by (simp add: slices_def)
    have each: "c \<noteq> [] \<and> length c \<le> 10" if "c \<in> set ?calls" for c
    proof -
      from that obtain j where j: "j < length ?calls" and c: "c = ?calls ! j"
        by (metis in_set_conv_nth)
      have "length c = map length ?calls ! j" using j c by simp
      also have "\<dots> = length (slices missions ! j)" using j len by (simp add: lens)
      finally have "length c = length (slices missions ! j)" .
      moreover have "slices missions ! j \<in> set (slices missions)" using j len by simp
      ultimately show ?thesis using slices_sizes[of "slices missions ! j" missions] by auto
    qed
    have "map Inr (concat ?calls) = concat (map (map Inr) ?calls)"
      by (simp add: map_concat)
    also have "\<dots> = map create_mission_embed (concat (slices missions))"
      by (simp add: eq map_concat)
    finally have cat: "map Inr (concat ?calls) = map create_mission_embed missions"
      by (simp add: concat_slices)
    have sizes: "map length ?calls = [10, 10, 3]" if "length missions = 23"
    proof -
      have "[0..<3] = [0, 1, 2::nat]" by (simp add: upt_rec)
      with that have "map length (slices missions) = [10, 10, 3]"
        by (simp add: slices_def batch_at_def)
      then show ?thesis by (simp only: lens)
    qed
    show ?thesis using n each cat sizes by blast
  qed
  show ?thesis unfolding calls using cnt[unfolded calls] good by blast
qed

theorem C9_send_multiple_missions_witness:
  "map length (fst (send_multiple_missions second_post_fails sample_missions)) = [10, 10, 3] \<and>
   map Inr (concat (fst (send_multiple_missions second_post_fails sample_missions))) =
     map create_mission_embed sample_missions \<and>
   snd (send_multiple_missions second_post_fails sample_missions) = 13"
proof -
  let ?calls = "fst (send_multiple_missions second_post_fails sample_missions)"
  have l: "length sample_missions = 23" by (simp add: sample_missions_def)
  have a: "\<forall>m \<in> set sample_missions. \<exists>e. create_mission_embed m = Inr e"
    by (simp add: sample_missions_def sample_mission_embed)
  note t = C9_send_multiple_missions[of second_post_fails sample_missions]
  from t a l have sizes: "map length ?calls = [10, 10, 3]" by blast
  from t a have cat: "map Inr (concat ?calls) = map create_mission_embed sample_missions"
    by blast
  have "length (map length ?calls) = length [10, 10, 3::nat]" by (simp only: sizes)
  then have n: "length ?calls = 3" by simp
  have "length (?calls ! 0) = map length ?calls ! 0" "length (?calls ! 2) = map length ?calls ! 2"
    using n by simp_all
  then have l0: "length (?calls ! 0) = 10" and l2: "length (?calls ! 2) = 3"
    by (simp_all add: sizes)
  have three: "{..<3::nat} = {0, 1, 2}" by auto
  from t have "snd (send_multiple_missions second_post_fails sample_missions) =
      (\<Sum>k<length ?calls. if second_post_fails k then length (?calls ! k) else 0)" by blast
  then have "snd (send_multiple_missions second_post_fails sample_missions) = 13"
    by (simp add: n three l0 l2 second_post_fails_def)
  with sizes cat show ?thesis by blast
qed

theorem C9_counterexample:
  "fst (send_multiple_missions all_posts_succeed missions_with_gap) =
     [[sample_embed 11, sample_embed 12]] \<and>
   snd (send_multiple_missions all_posts_succeed missions_with_gap) = 2 \<and>
   length missions_with_gap = 12 \<and>
   length (fst (send_multiple_missions all_posts_succeed missions_with_gap)) \<noteq>
     (length missions_with_gap + 9) div 10"
  by (simp add: send_multiple_missions_def send_batches.simps missions_with_gap_def
      err_bind_def sample_mission_embed mission_without_content_embed all_posts_succeed_def)

section \<open>Properties of the seen-item store: \<open>_cleanup_old_missions\<close>\<close>

lemma missions_to_remove_Inr:
  "\<forall>(k, d) \<in> set items. \<not> has_offset P d \<Longrightarrow>
     missions_to_remove P c items = Inr (map fst (filter (\<lambda>(k, d). is_old P c d) items))"
proof (induction items)
  case Nil
  show ?case by simp
next
  case (Cons kd items)
  obtain k d where kd: "kd = (k, d)" by (cases kd)
  from Cons.prems have rest: "\<forall>(k, d) \<in> set items. \<not> has_offset P d"
    and here: "\<not> has_offset P d" by (simp_all add: kd)
  show ?case
  proof (cases "P (seen_at_or_default d)")
    case None
    then show ?thesis by (simp add: kd Cons.IH[OF rest] is_old_def)
  next
    case (Some dt)
    with here obtain t where "dt = Naive t" by (cases dt) (simp_all add: has_offset_def)
    with Some show ?thesis by (simp add: kd Cons.IH[OF rest] is_old_def)
  qed
qed

lemma missions_to_remove_Inl:
  "(k, d) \<in> set items \<Longrightarrow> has_offset P d \<Longrightarrow> missions_to_remove P c items = Inl TypeError"
proof (induction items)
  case Nil
  then show ?case by simp
next
  case (Cons kd items)
  obtain k' d' where kd: "kd = (k', d')" by (cases kd)
  show ?case
  proof (cases "(k, d) = (k', d')")
    case True
    with Cons.prems(2) show ?thesis
      by (simp add: kd has_offset_def split: option.splits datetime.splits)
  next
    case False
    with Cons.prems(1) have "(k, d) \<in> set items" by (auto simp: kd)
    then have "missions_to_remove P c items = Inl TypeError"
      using Cons.prems(2) by (rule Cons.IH)
    then show ?thesis by (simp add: kd split: option.splits datetime.splits)
  qed
qed

lemma remove_missions_eq:
  "remove_missions ids st =
     \<lparr>seen_missions = seen_missions st - set ids,
      missions_data = filter (\<lambda>(k, d). k \<notin> set ids) (missions_data st)\<rparr>"
proof (induction ids arbitrary: st)
  case Nil
  show ?case by simp
next
  case (Cons k ids)
  have "filter (\<lambda>(k', d). k' \<notin> set ids) (AList.delete k (missions_data st)) =
      filter (\<lambda>(k', d). k' \<notin> set (k # ids)) (missions_data st)"
    by (induction "missions_data st" arbitrary: st) (auto simp: AList.delete_eq intro: filter_cong)
  then show ?case by (auto simp: Cons.IH)
qed

lemma old_keys:
  assumes "distinct (map fst items)" and "(k, d) \<in> set items"
  shows "k \<in> set (map fst (filter (\<lambda>(k, d). Q d) items)) \<longleftrightarrow> Q d"
  using assms by (induction items) (auto simp: image_iff)

lemma filter_old_keys:
  assumes "distinct (map fst items)"
  shows "filter (\<lambda>(k, d). k \<notin> set (map fst (filter (\<lambda>(k, d). Q d) items))) items =
     filter (\<lambda>(k, d). \<not> Q d) items"
proof (rule filter_cong[OF refl])
  fix kd assume kd: "kd \<in> set items"
  obtain k d where eq: "kd = (k, d)" by (cases kd)
  from kd have "k \<in> set (map fst (filter (\<lambda>(k, d). Q d) items)) \<longleftrightarrow> Q d"
    unfolding eq by (rule old_keys[OF assms])
  then show "(case kd of (k, d) \<Rightarrow> k \<notin> set (map fst (filter (\<lambda>(k, d). Q d) items))) =
      (case kd of (k, d) \<Rightarrow> \<not> Q d)"
    by (simp add: eq)
qed

lemma cutoff_date_30:
  assumes "datetime_min + 30 * microseconds_per_day \<le> now" and "now \<le> datetime_max"
  shows "cutoff_date now 30 = Inr (now - 30 * microseconds_per_day)"
  using assms by (simp add: cutoff_date_def timedelta_max_days_def microseconds_per_day_def)

lemma cleanup_old_missions_eq:
  assumes "cutoff_date now days = Inr c"
    and "\<forall>(k, d) \<in> set (missions_data st). \<not> has_offset P d"
  shows "cleanup_old_missions P now days st =
     (\<lparr>seen_missions = seen_missions st -
          set (map fst (filter (\<lambda>(k, d). is_old P c d) (missions_data st))),
       missions_data =
          filter (\<lambda>(k, d). k \<notin> set (map fst (filter (\<lambda>(k, d). is_old P c d)
                    (missions_data st))))
            (missions_data st)\<rparr>, None)"
  by (simp add: cleanup_old_missions_def assms(1) missions_to_remove_Inr[OF assms(2)]
        remove_missions_eq)

lemma cleanup_old_missions_raises:
  assumes "(k, d) \<in> set (missions_data st)" and "has_offset P d"
  shows "cleanup_old_missions P now days st = (st, Some TypeError) \<or>
     cleanup_old_missions P now days st = (st, Some OverflowError)"
  by (cases "cutoff_date now days")
     (simp_all add: cleanup_old_missions_def missions_to_remove_Inl[OF assms]
        cutoff_date_def split: if_splits)

lemma cleanup_old_missions_error:
  "snd (cleanup_old_missions P now days st) \<noteq> None \<Longrightarrow>
     fst (cleanup_old_missions P now days st) = st"
  by (simp add: cleanup_old_missions_def split: sum.splits)

lemma cleanup_default_records:
  assumes "distinct (map fst (missions_data st))"
    and "\<forall>(k, d) \<in> set (missions_data st). \<not> has_offset P d"
    and "datetime_min + 30 * microseconds_per_day \<le> now" and "now \<le> datetime_max"
  shows "cleanup_old_missions P now 30 st =
     (\<lparr>seen_missions = seen_missions st -
          set (map fst (filter (\<lambda>(k, d). is_old P (now - 30 * microseconds_per_day) d)
                 (missions_data st))),
       missions_data =
          filter (\<lambda>(k, d). \<not> is_old P (now - 30 * microseconds_per_day) d)
            (missions_data st)\<rparr>, None) \<and>
     (\<forall>(k, d) \<in> set (missions_data st).
        (if is_old P (now - 30 * microseconds_per_day) d
         then k \<notin> seen_missions (fst (cleanup_old_missions P now 30 st)) \<and>
              map_of (missions_data (fst (cleanup_old_missions P now 30 st))) k = None
         else map_of (missions_data (fst (cleanup_old_missions P now 30 st))) k = Some d \<and>
              (k \<in> seen_missions (fst (cleanup_old_missions P now 30 st)) \<longleftrightarrow>
               k \<in> seen_missions st)))"
proof -
  let ?old = "is_old P (now - 30 * microseconds_per_day)"
  let ?st' = "\<lparr>seen_missions = seen_missions st -
          set (map fst (filter (\<lambda>(k, d). ?old d) (missions_data st))),
       missions_data = filter (\<lambda>(k, d). \<not> ?old d) (missions_data st)\<rparr>"
  have eq: "cleanup_old_missions P now 30 st = (?st', None)"
    using cleanup_old_missions_eq[OF cutoff_date_30[OF assms(3,4)] assms(2)]
      filter_old_keys[OF assms(1), of ?old]
    by simp
  have rec: "if ?old d
      then k \<notin> seen_missions ?st' \<and> map_of (missions_data ?st') k = None
      else map_of (missions_data ?st') k = Some d \<and>
           (k \<in> seen_missions ?st' \<longleftrightarrow> k \<in> seen_missions st)"
    if kd: "(k, d) \<in> set (missions_data st)" for k d
  proof (cases "?old d")
    case True
    have "k \<in> set (map fst (filter (\<lambda>(k, d). ?old d) (missions_data st)))"
      using old_keys[OF assms(1) kd, of ?old] True by simp
    moreover have "k \<notin> fst ` set (filter (\<lambda>(k, d). \<not> ?old d) (missions_data st))"
    proof
      assume "k \<in> fst ` set (filter (\<lambda>(k, d). \<not> ?old d) (missions_data st))"
      then obtain d' where "(k, d') \<in> set (missions_data st)" and "\<not> ?old d'" by auto
      with assms(1) kd True show False by (auto dest: eq_key_imp_eq_value)
    qed
    ultimately show ?thesis using True by (simp add: map_of_eq_None_iff)
  next
    case False
    have "k \<notin> set (map fst (filter (\<lambda>(k, d). ?old d) (missions_data st)))"
      using old_keys[OF assms(1) kd, of ?old] False by simp
    moreover have "distinct (map fst (filter (\<lambda>(k, d). \<not> ?old d) (missions_data st)))"
      using assms(1) by (rule distinct_map_filter)
    moreover have "(k, d) \<in> set (filter (\<lambda>(k, d). \<not> ?old d) (missions_data st))"
      using kd False by simp
    ultimately show ?thesis using False by simp
  qed
  have all: "\<forall>(k, d) \<in> set (missions_data st).
      (if ?old d
       then k \<notin> seen_missions ?st' \<and> map_of (missions_data ?st') k = None
       else map_of (missions_data ?st') k = Some d \<and>
            (k \<in> seen_missions ?st' \<longleftrightarrow> k \<in> seen_missions st))"
  proof (rule ballI)
    fix kd assume kd: "kd \<in> set (missions_data st)"
    obtain k d where eq': "kd = (k, d)" by (cases kd)
    from rec[of k d] kd show "case kd of (k, d) \<Rightarrow>
      (if ?old d
       then k \<notin> seen_missions ?st' \<and> map_of (missions_data ?st') k = None
       else map_of (missions_data ?st') k = Some d \<and>
            (k \<in> seen_missions ?st' \<longleftrightarrow> k \<in> seen_missions st))"
      unfolding eq' prod.case by simp
  qed
  show ?thesis unfolding eq fst_conv by (rule conjI[OF refl all])
qed

text \<open>
  C1. Amended. When the clock reads a date from the end of January of year 1 on, the keys
  of the record map are distinct and no record's date carries a UTC offset,
  \<open>_cleanup_old_missions\<close> with the default 30 days returns normally, and for every record
  of the store: it removes the identifier from the seen set and the record from the map
  exactly when the record's \<open>seen_at\<close>, \<^emph>\<open>or the text \<open>1970-01-01\<close> when the record has no
  \<open>seen_at\<close>\<close>, parses and is strictly older than now minus 30 days. Every other record,
  among them every record whose \<open>seen_at\<close> is there and fails to parse, stays in the map
  unchanged and in place, and its identifier is in the seen set if it was.
\<close>

theorem C1_cleanup_old_missions:
  assumes "distinct (map fst (missions_data st))"
    and "\<forall>(k, d) \<in> set (missions_data st). \<not> has_offset P d"
    and "datetime_min + 30 * microseconds_per_day \<le> now" and "now \<le> datetime_max"
  shows "cleanup_old_missions P now 30 st =
     (\<lparr>seen_missions = seen_missions st -
          set (map fst (filter (\<lambda>(k, d). is_old P (now - 30 * microseconds_per_day) d)
                 (missions_data st))),
       missions_data =
          filter (\<lambda>(k, d). \<not> is_old P (now - 30 * microseconds_per_day) d)
            (missions_data st)\<rparr>, None) \<and>
     (\<forall>(k, d) \<in> set (missions_data st).
        (if is_old P (now - 30 * microseconds_per_day) d
         then k \<notin> seen_missions (fst (cleanup_old_missions P now 30 st)) \<and>
              map_of (missions_data (fst (cleanup_old_missions P now 30 st))) k = None
         else map_of (missions_data (fst (cleanup_old_missions P now 30 st))) k = Some d \<and>
              (k \<in> seen_missions (fst (cleanup_old_missions P now 30 st)) \<longleftrightarrow>
               k \<in> seen_missions st)))"
  using assms by (rule cleanup_default_records)

lemmas sample_defs =
  sample_store_def store_without_date_def store_with_offset_def sample_record_def
  sample_fromisoformat_def sample_now_def microseconds_per_day_def ascii_def
  seen_at_or_default_def is_old_def has_offset_def spec_expired_def empty_state_def
  datetime_min_def datetime_max_def timedelta_max_days_def cutoff_date_def

theorem C1_cleanup_old_missions_witness:
  "cleanup_old_missions sample_fromisoformat sample_now 30 sample_store =
     (\<lparr>seen_missions = {ascii ''m2'', ascii ''m3''},
       missions_data =
        [(ascii ''m2'', sample_record ''february'' ''Mobile'' (Some (ascii ''2024-02-15T00:00:00''))),
         (ascii ''m3'', sample_record ''undated'' ''Web'' (Some (ascii ''zzz'')))]\<rparr>, None)"
proof -
  have d: "distinct (map fst (missions_data sample_store))"
    by (simp add: sample_defs)
  have o: "\<forall>(k, d) \<in> set (missions_data sample_store). \<not> has_offset sample_fromisoformat d"
    by (simp add: sample_defs)
  have n: "datetime_min + 30 * microseconds_per_day \<le> sample_now" "sample_now \<le> datetime_max"
    by (simp_all add: sample_defs)
  have s: "{ascii ''m1'', ascii ''m2'', ascii ''m3'', ascii ''m4''} - {ascii ''m1'', ascii ''m4''} =
      {ascii ''m2'', ascii ''m3''}"
    by (auto simp: ascii_def)
  from C1_cleanup_old_missions[OF d o n, THEN conjunct1] s show ?thesis
    by (simp add: sample_defs)
qed

text \<open>
  The record of \<open>store_without_date\<close> has no \<open>seen_at\<close>, so nothing of it parses and is
  older than the cutoff; yet the cleanup removes it and its identifier.
\<close>

theorem C1_counterexample:
  "\<not> spec_expired sample_fromisoformat (sample_now - 30 * microseconds_per_day)
       (sample_record ''missing'' ''Web'' None) \<and>
   cleanup_old_missions sample_fromisoformat sample_now 30 store_without_date =
     (empty_state, None)"
  by (simp add: cleanup_old_missions_def sample_defs)

lemma cleanup_removes_undated:
  assumes "distinct (map fst (missions_data st))"
    and "\<forall>(k, d) \<in> set (missions_data st). \<not> has_offset P d"
    and "datetime_min + 30 * microseconds_per_day \<le> now" and "now \<le> datetime_max"
    and "(k, d) \<in> set (missions_data st)" and "seen_at d = None"
    and "P (ascii ''1970-01-01'') = Some (Naive 0)" and "0 < now - 30 * microseconds_per_day"
  shows "k \<notin> seen_missions (fst (cleanup_old_missions P now 30 st)) \<and>
     map_of (missions_data (fst (cleanup_old_missions P now 30 st))) k = None"
proof -
  have "is_old P (now - 30 * microseconds_per_day) d"
    using assms(6-8) by (simp add: is_old_def seen_at_or_default_def)
  with cleanup_default_records[OF assms(1-4), THEN conjunct2] assms(5) show ?thesis
    by (auto split: if_splits)
qed

text \<open>
  C10. In \<open>store_with_offset\<close> the record \<open>m4\<close> has no \<open>seen_at\<close>, and the date of the record
  \<open>m5\<close> carries a UTC offset. The comparison of that date with the cutoff raises
  \<open>TypeError\<close>, which the loop does not catch: the cleanup ends before its second loop and
  removes nothing, the record \<open>m4\<close> included.
\<close>

theorem C10_cleanup_with_offset:
  "cleanup_old_missions sample_fromisoformat sample_now 30 store_with_offset =
     (store_with_offset, Some TypeError)"
  by (simp add: cleanup_old_missions_def sample_defs)

section \<open>Properties of the seen-item store: lockstep\<close>

lemma lockstep_empty: "lockstep empty_state"
  by (simp add: lockstep_def empty_state_def)

lemma lockstep_mark_mission_seen:
  assumes "lockstep st" and "has_record_keys m"
  shows "lockstep (fst (mark_mission_seen stamp st m)) \<and>
     snd (mark_mission_seen stamp st m) = None"
proof -
  from assms(2) obtain t p f where k: "mission_title m = Some t" "mission_pub_date m = Some p"
    "mission_feed_name m = Some f" by (auto simp: has_record_keys_def)
  from assms(1) show ?thesis
    by (auto simp: mark_mission_seen_def k lockstep_def AList.update_keys
        intro: AList.distinct_update)
qed

lemma lockstep_mark_missions_seen:
  "lockstep st \<Longrightarrow> \<forall>m \<in> set ms. has_record_keys m \<Longrightarrow>
     lockstep (fst (mark_missions_seen clock st ms)) \<and> snd (mark_missions_seen clock st ms) = None"
proof (induction ms arbitrary: st clock)
  case Nil
  then show ?case by simp
next
  case (Cons m ms)
  from Cons.prems have m: "has_record_keys m" and ms: "\<forall>m \<in> set ms. has_record_keys m"
    by simp_all
  obtain st' where st': "mark_mission_seen (clock 0) st m = (st', None)" and l: "lockstep st'"
    using lockstep_mark_mission_seen[OF Cons.prems(1) m, of "clock 0"]
    by (cases "mark_mission_seen (clock 0) st m") auto
  from Cons.IH[OF l ms, of "\<lambda>n. clock (Suc n)"] show ?case by (simp add: st')
qed

lemma lockstep_remove_missions:
  assumes "lockstep st"
  shows "lockstep (remove_missions ids st)"
proof -
  have "set (map fst (filter (\<lambda>(k, d). k \<notin> set ids) (missions_data st))) =
      set (map fst (missions_data st)) - set ids"
    by (auto simp: image_iff)
  moreover have "distinct (map fst (filter (\<lambda>(k, d). k \<notin> set ids) (missions_data st)))"
    using assms by (simp add: lockstep_def distinct_map_filter)
  ultimately show ?thesis using assms by (simp add: remove_missions_eq lockstep_def)
qed

lemma lockstep_cleanup:
  "lockstep st \<Longrightarrow> lockstep (fst (cleanup_old_missions P now days st))"
  by (simp add: cleanup_old_missions_def lockstep_remove_missions split: sum.splits)

lemma lockstep_reset: "lockstep (fst (reset_state io st d))"
  by (simp add: reset_state_def lockstep_empty split: option.splits)

lemma load_state_snapshot:
  "load_state \<lparr>data_file = Some (snapshot st stamp), temp_file = t\<rparr> = st"
  by (simp add: load_state_def snapshot_def)

lemma save_state_cases:
  "save_state P now stamp io st d =
     (fst (cleanup_old_missions P now 30 st),
      if snd (cleanup_old_missions P now 30 st) = None \<and> open_ok io \<and> dump_ok io \<and>
         replace_ok io
      then (os_replace (d\<lparr>temp_file :=
                Some (snapshot (fst (cleanup_old_missions P now 30 st)) stamp)\<rparr>), Inr True)
      else save_failed io
        (if snd (cleanup_old_missions P now 30 st) \<noteq> None \<or> \<not> open_ok io then d
         else if \<not> dump_ok io then d\<lparr>temp_file := Some Garbage\<rparr>
         else d\<lparr>temp_file :=
                Some (snapshot (fst (cleanup_old_missions P now 30 st)) stamp)\<rparr>))"
  by (cases "cleanup_old_missions P now 30 st")
     (auto simp: save_state_def snapshot_def Let_def)

lemma save_failed_data_file: "data_file (fst (save_failed io d)) = data_file d"
  by (simp add: save_failed_def split: option.splits)

lemma save_failed_result: "snd (save_failed io d) \<noteq> Inr True"
  by (simp add: save_failed_def split: option.splits)


lemma lockstep_save_state:
  assumes "lockstep st" and "lockstep (load_state d)"
  shows "lockstep (fst (save_state P now stamp io st d)) \<and>
     lockstep (load_state (fst (snd (save_state P now stamp io st d))))"
proof -
  let ?st' = "fst (cleanup_old_missions P now 30 st)"
  have l: "lockstep ?st'" using assms(1) by (rule lockstep_cleanup)
  have "load_state (os_replace (d\<lparr>temp_file := Some (snapshot ?st' stamp)\<rparr>)) = ?st'"
    by (simp add: os_replace_def load_state_def snapshot_def)
  moreover have "load_state (fst (save_failed io d')) = load_state d'" for d'
    using save_failed_data_file[of io d'] by (simp add: load_state_def)
  moreover have "load_state (d\<lparr>temp_file := t\<rparr>) = load_state d" for t
    by (simp add: load_state_def)
  ultimately show ?thesis using l assms(2) by (simp add: save_state_cases)
qed

text \<open>
  C7. Amended. The seen set and the record map stay in lockstep (the identifiers seen are
  the keys of the map, each key once) under \<open>mark_mission_seen\<close> of a mission that has the
  keys \<open>title\<close>, \<open>pub_date\<close> and \<open>feed_name\<close>, under \<open>_cleanup_old_missions\<close>, whether it
  returns or raises, and under \<open>save_state\<close>; \<open>reset_state\<close> leaves them in lockstep.
  \<open>load_state\<close> makes them what the file holds, without comparing the two: they are in
  lockstep after a load when the file is missing or unreadable, or holds identifiers and
  records in lockstep, as does every file that \<open>save_state\<close> has written from a store in
  lockstep, which a load gives back.
\<close>

theorem C7_lockstep:
  "(lockstep st \<and> has_record_keys m \<longrightarrow>
      lockstep (fst (mark_mission_seen stamp st m)) \<and> snd (mark_mission_seen stamp st m) = None) \<and>
   (lockstep st \<longrightarrow> lockstep (fst (cleanup_old_missions P now days st))) \<and>
   lockstep (fst (reset_state io st d)) \<and>
   (data_file d = None \<or> data_file d = Some Garbage \<longrightarrow> lockstep (load_state d)) \<and>
   (lockstep st \<and> lockstep (load_state d) \<longrightarrow>
      lockstep (fst (save_state P now stamp io st d)) \<and>
      lockstep (load_state (fst (snd (save_state P now stamp io st d))))) \<and>
   (snd (snd (save_state P now stamp io st d)) = Inr True \<longrightarrow>
      load_state (fst (snd (save_state P now stamp io st d))) =
        fst (save_state P now stamp io st d))"
proof -
  have load: "lockstep (load_state d)" if "data_file d = None \<or> data_file d = Some Garbage"
    using that by (auto simp: load_state_def lockstep_empty)
  have reload: "load_state (fst (snd (save_state P now stamp io st d))) =
      fst (save_state P now stamp io st d)"
    if "snd (snd (save_state P now stamp io st d)) = Inr True"
    using that save_failed_result
    by (auto simp: save_state_cases os_replace_def load_state_def snapshot_def
        split: if_splits)
  show ?thesis
    using lockstep_mark_mission_seen[of st m stamp] lockstep_cleanup[of st P now days]
      lockstep_reset[of io st d] load lockstep_save_state[of st d P now stamp io] reload
    by blast
qed

lemmas store_defs =
  sample_seen_mission_def sample_stamp_def sample_disk_def mismatched_disk_def io_all_ok_def
  io_dump_fails_def io_dump_and_remove_fail_def pruned_store_def store_undated_first_def
  has_record_keys_def snapshot_def lockstep_def load_state_def os_replace_def
  save_failed_def

theorem C7_lockstep_witness:
  "lockstep sample_store \<and> lockstep (load_state sample_disk) \<and>
   lockstep (fst (mark_mission_seen sample_stamp sample_store sample_seen_mission)) \<and>
   lockstep (fst (cleanup_old_missions sample_fromisoformat sample_now 30 sample_store)) \<and>
   lockstep (load_state (fst (snd (save_state sample_fromisoformat sample_now sample_stamp
      io_dump_fails sample_store sample_disk))))"
proof -
  have s: "lockstep sample_store" by (simp add: lockstep_def sample_defs)
  have d: "lockstep (load_state sample_disk)" by (simp add: store_defs sample_defs)
  have k: "has_record_keys sample_seen_mission" by (simp add: store_defs)
  from C7_lockstep[of sample_store sample_seen_mission sample_stamp sample_fromisoformat
      sample_now 30 io_dump_fails sample_disk] s d k
  show ?thesis by blast
qed

text \<open>
  The state file of \<open>mismatched_disk\<close> lists the identifier \<open>m1\<close> and holds no record: after
  the load the identifier is seen and has no record.
\<close>

theorem C7_counterexample:
  "load_state mismatched_disk = \<lparr>seen_missions = {ascii ''m1''}, missions_data = []\<rparr> \<and>
   \<not> lockstep (load_state mismatched_disk)"
  by (simp add: store_defs)

section \<open>Properties of the seen-item store: \<open>save_state\<close>\<close>





section \<open>Properties of the seen-item store: \<open>get_statistics\<close>\<close>

lemma map_of_count_feed:
  "map_of (count_feed by_feed d) f =
     (if feed_name_or_unknown d = f
      then Some ((case map_of by_feed f of None \<Rightarrow> 0 | Some n \<Rightarrow> n) + 1)
      else map_of by_feed f)"
  by (simp add: count_feed_def AList.update_conv)

lemma map_of_foldl_count_feed:
  "map_of (foldl count_feed by_feed ds) f =
     (if map_of by_feed f = None \<and> filter (\<lambda>d. feed_name_or_unknown d = f) ds = []
      then None
      else Some ((case map_of by_feed f of None \<Rightarrow> 0 | Some n \<Rightarrow> n) +
                 length (filter (\<lambda>d. feed_name_or_unknown d = f) ds)))"
proof (induction ds arbitrary: by_feed)
  case Nil
  show ?case by (cases "map_of by_feed f") simp_all
next
  case (Cons d ds)
  show ?case
    by (cases "map_of by_feed f") (simp_all add: Cons.IH map_of_count_feed)
qed

lemma sorted_key_bounds:
  assumes "ys \<noteq> []" and "sorted (map f ys)" and "y \<in> set ys"
  shows "f (hd ys) \<le> f y \<and> f y \<le> f (last ys)"
proof -
  from assms(3) obtain i where i: "i < length ys" and y: "y = ys ! i"
    by (metis in_set_conv_nth)
  have "map f ys ! 0 \<le> map f ys ! i"
    using assms(2) i by (intro sorted_nth_mono) simp_all
  moreover have "map f ys ! i \<le> map f ys ! (length ys - 1)"
    using assms(2) i by (intro sorted_nth_mono) simp_all
  ultimately show ?thesis
    using assms(1) i y by (simp add: hd_conv_nth last_conv_nth)
qed

text \<open>
  C8. Amended. \<open>get_statistics\<close> returns the size of the seen set as the total and, for
  every feed name, the number of records of that feed (a record without feed name counts
  under \<open>Unknown\<close>), a feed without record having no entry. With no record the mapping is
  empty and both titles are absent; with an empty seen set the total is 0. With records,
  the oldest and newest titles are those of the first and the last record after a stable
  sort of the records by \<^emph>\<open>the text under \<open>seen_at\<close>, compared as text\<close>, with the text
  \<open>1970-01-01\<close> for a record that has none: the first record has the least such text and
  the last the greatest.
\<close>

theorem C8_get_statistics:
  "total_missions_seen (get_statistics st) = card (seen_missions st) \<and>
   map_of (missions_by_feed (get_statistics st)) f =
     (if feed_count st f = 0 then None else Some (feed_count st f)) \<and>
   (seen_missions st = {} \<longrightarrow> total_missions_seen (get_statistics st) = 0) \<and>
   (missions_data st = [] \<longrightarrow>
      missions_by_feed (get_statistics st) = [] \<and>
      oldest_mission (get_statistics st) = None \<and> newest_mission (get_statistics st) = None) \<and>
   (missions_data st \<noteq> [] \<longrightarrow>
      oldest_mission (get_statistics st) =
        title (hd (sort_key seen_at_or_default (map snd (missions_data st)))) \<and>
      newest_mission (get_statistics st) =
        title (last (sort_key seen_at_or_default (map snd (missions_data st)))) \<and>
      hd (sort_key seen_at_or_default (map snd (missions_data st))) \<in> snd ` set (missions_data st) \<and>
      last (sort_key seen_at_or_default (map snd (missions_data st))) \<in> snd ` set (missions_data st) \<and>
      (\<forall>d \<in> snd ` set (missions_data st).
         seen_at_or_default (hd (sort_key seen_at_or_default (map snd (missions_data st))))
           \<le> seen_at_or_default d \<and>
         seen_at_or_default d
           \<le> seen_at_or_default (last (sort_key seen_at_or_default (map snd (missions_data st))))))"
proof -
  let ?vals = "map snd (missions_data st)"
  let ?sorted = "sort_key seen_at_or_default ?vals"
  have feeds: "map_of (missions_by_feed (get_statistics st)) f =
      (if feed_count st f = 0 then None else Some (feed_count st f))"
  proof -
    have m: "missions_by_feed (get_statistics st) = foldl count_feed [] ?vals"
      by (simp add: get_statistics_def Let_def)
    define ds where "ds = filter (\<lambda>d. feed_name_or_unknown d = f) ?vals"
    have c: "feed_count st f = length ds" by (simp only: feed_count_def ds_def)
    have "map_of (foldl count_feed [] ?vals) f =
        (if map_of [] f = (None :: nat option) \<and> ds = [] then None
         else Some ((case map_of [] f of None \<Rightarrow> 0 | Some n \<Rightarrow> n) + length ds))"
      by (simp only: map_of_foldl_count_feed ds_def)
    then show ?thesis unfolding m c by (cases ds) simp_all
  qed
  have sorted: "?sorted \<noteq> [] \<and> hd ?sorted \<in> snd ` set (missions_data st) \<and>
      last ?sorted \<in> snd ` set (missions_data st) \<and>
      (\<forall>d \<in> snd ` set (missions_data st).
         seen_at_or_default (hd ?sorted) \<le> seen_at_or_default d \<and>
         seen_at_or_default d \<le> seen_at_or_default (last ?sorted))"
    if ne: "missions_data st \<noteq> []"
  proof -
    define ys where "ys = ?sorted"
    have n: "ys \<noteq> []" unfolding ys_def using ne by (metis length_sort length_map length_0_conv)
    have s: "sorted (map seen_at_or_default ys)" unfolding ys_def by (rule sorted_sort_key)
    have e: "set ys = snd ` set (missions_data st)" unfolding ys_def by simp
    have h: "hd ys \<in> set ys" using n by (rule hd_in_set)
    have l: "last ys \<in> set ys" using n by (rule last_in_set)
    have b: "seen_at_or_default (hd ys) \<le> seen_at_or_default d \<and>
        seen_at_or_default d \<le> seen_at_or_default (last ys)"
      if "d \<in> set ys" for d
      using n s that by (rule sorted_key_bounds)
    have "ys \<noteq> [] \<and> hd ys \<in> snd ` set (missions_data st) \<and>
      last ys \<in> snd ` set (missions_data st) \<and>
      (\<forall>d \<in> snd ` set (missions_data st).
         seen_at_or_default (hd ys) \<le> seen_at_or_default d \<and>
         seen_at_or_default d \<le> seen_at_or_default (last ys))"
      using n h l b unfolding e by blast
    then show ?thesis unfolding ys_def .
  qed
  show ?thesis
    using feeds sorted by (simp add: get_statistics_def Let_def)
qed

theorem C8_get_statistics_witness:
  "total_missions_seen (get_statistics sample_store) = 4 \<and>
   map_of (missions_by_feed (get_statistics sample_store)) (ascii ''Web'') = Some 3 \<and>
   oldest_mission (get_statistics sample_store) = Some (ascii ''missing'') \<and>
   newest_mission (get_statistics sample_store) = Some (ascii ''undated'')"
proof -
  have c: "card (seen_missions sample_store) = 4" by (simp add: sample_defs)
  have f: "feed_count sample_store (ascii ''Web'') = 3"
    by (simp add: feed_count_def feed_name_or_unknown_def sample_defs)
  have s: "sort_key seen_at_or_default (map snd (missions_data sample_store)) =
      [sample_record ''missing'' ''Web'' None,
       sample_record ''january'' ''Web'' (Some (ascii ''2024-01-01T00:00:00'')),
       sample_record ''february'' ''Mobile'' (Some (ascii ''2024-02-15T00:00:00'')),
       sample_record ''undated'' ''Web'' (Some (ascii ''zzz''))]"
    by (simp add: sample_defs)
  have n: "missions_data sample_store \<noteq> []" by (simp add: sample_defs)
  from C8_get_statistics[of sample_store "ascii ''Web''"] c f n show ?thesis
    by (simp add: s sample_record_def)
qed

text \<open>
  In \<open>store_undated_first\<close> the text \<open>zzz\<close> under \<open>seen_at\<close> does not parse. As a text it
  is greater than \<open>2024-02-15T00:00:00\<close>, so its record is the newest for the code; at the
  start of the epoch it would be the oldest.
\<close>

theorem C8_counterexample:
  "oldest_mission (get_statistics store_undated_first) = Some (ascii ''february'') \<and>
   newest_mission (get_statistics store_undated_first) = Some (ascii ''undated'') \<and>
   title (hd (sort_key (spec_sort_key sample_fromisoformat)
      (map snd (missions_data store_undated_first)))) = Some (ascii ''undated'') \<and>
   title (last (sort_key (spec_sort_key sample_fromisoformat)
      (map snd (missions_data store_undated_first)))) = Some (ascii ''february'')"
  by (simp add: get_statistics_def Let_def store_undated_first_def spec_sort_key_def sample_defs)

section \<open>Properties of the field extraction: texts without the patterns\<close>









end
